theory Spec2Isabelle
  imports Main
begin

section \<open>The tagged option registry of swift/codegen/lib/options.py\<close>

subsection \<open>Objects and the module state\<close>

text \<open>
  Python objects have identity: the registry holds references to Option objects, and
  an Option defines no equality of its own. An Option is therefore an address into a
  heap of Option objects; the address of an object is its construction index.
\<close>

type_synonym ref = nat

text \<open>
  The values the declarations of \<^verbatim>\<open>_init_options\<close> pass as keyword arguments:
  booleans, strings, the function \<^verbatim>\<open>_abspath\<close>, and paths \<^verbatim>\<open>base / rel\<close>.
\<close>

datatype pyval = PyBool bool | PyStr string | PyFunc string | PyPath string string

text \<open>\<^verbatim>\<open>self.args\<close> and \<^verbatim>\<open>self.kwargs\<close>: the only attributes an Option stores.\<close>

record Option_obj =
  args :: "string list"
  kwargs :: "(string \<times> pyval) list"

datatype error = KeyError string

text \<open>
  \<^verbatim>\<open>collections.defaultdict\<close>: a dict with a \<^verbatim>\<open>default_factory\<close>. The values of
  \<^verbatim>\<open>_options\<close> are lists of Option references. A list is a mutable object that is
  reached through its key only, and no code of the module rebinds or removes a key,
  so the list object of a key is identified with the key.
\<close>

record defaultdict =
  default_factory :: "ref list option"
  items :: "string \<rightharpoonup> ref list"

text \<open>
  \<^verbatim>\<open>d[k]\<close>: the value of a present key; for a missing key \<^verbatim>\<open>__missing__\<close> raises
  KeyError when there is no factory, and otherwise stores the factory's value under
  the key and returns it.
\<close>

definition getitem :: "defaultdict \<Rightarrow> string \<Rightarrow> error + (defaultdict \<times> ref list)" where
  "getitem d k =
     (case items d k of
        Some v \<Rightarrow> Inr (d, v)
      | None \<Rightarrow>
          (case default_factory d of
             None \<Rightarrow> Inl (KeyError k)
           | Some v \<Rightarrow> Inr (d\<lparr>items := (items d)(k \<mapsto> v)\<rparr>, v)))"

text \<open>The module state: the heap of Option objects and the global \<^verbatim>\<open>_options\<close>.\<close>

record state =
  heap :: "Option_obj list"
  options :: defaultdict

text \<open>\<^verbatim>\<open>_options = collections.defaultdict(list)\<close>, before any declaration ran.\<close>

definition empty_state :: state where
  "empty_state = \<lparr>heap = [], options = \<lparr>default_factory = Some [], items = Map.empty\<rparr>\<rparr>"

subsection \<open>Option.__init__\<close>

text \<open>\<^verbatim>\<open>_options[t].append(self)\<close>\<close>

definition append_under :: "ref \<Rightarrow> string \<Rightarrow> state \<Rightarrow> error + state" where
  "append_under self t s =
     (case getitem (options s) t of
        Inl e \<Rightarrow> Inl e
      | Inr (d, l) \<Rightarrow> Inr (s\<lparr>options := d\<lparr>items := (items d)(t \<mapsto> l @ [self])\<rparr>\<rparr>))"

text \<open>\<^verbatim>\<open>for t in tags: _options[t].append(self)\<close>\<close>

fun for_tags :: "ref \<Rightarrow> string list \<Rightarrow> state \<Rightarrow> error + state" where
  "for_tags self [] s = Inr s"
| "for_tags self (t # ts) s =
     (case append_under self t s of
        Inl e \<Rightarrow> Inl e
      | Inr s' \<Rightarrow> for_tags self ts s')"

text \<open>
  \<^verbatim>\<open>Option(*args, tags=None, **kwargs)\<close>. The object is allocated, its two attributes
  are set, and it is appended under each of its tags, or under \<^verbatim>\<open>"*"\<close> when
  \<^verbatim>\<open>tags or []\<close> is empty. The new state and the reference to the object are returned.
\<close>

definition Option_init ::
  "string list \<Rightarrow> string list option \<Rightarrow> (string \<times> pyval) list \<Rightarrow> state \<Rightarrow> error + (state \<times> ref)" where
  "Option_init as tags kws s =
     (let tags' = (case tags of None \<Rightarrow> [] | Some ts \<Rightarrow> ts);
          self = length (heap s);
          s1 = s\<lparr>heap := heap s @ [\<lparr>args = as, kwargs = kws\<rparr>]\<rparr>
      in case (if tags' \<noteq> [] then for_tags self tags' s1
               else append_under self ''*'' s1) of
           Inl e \<Rightarrow> Inl e
         | Inr s2 \<Rightarrow> Inr (s2, self))"

subsection \<open>Option.add_to\<close>

text \<open>
  \<^verbatim>\<open>parser.add_argument(*self.args, **self.kwargs)\<close>. The parser is an external
  collaborator: its state type and its \<^verbatim>\<open>add_argument\<close> are parameters; the call may
  raise an error of the collaborator's own. The method has no return statement.
\<close>

definition add_to ::
  "('p \<Rightarrow> string list \<Rightarrow> (string \<times> pyval) list \<Rightarrow> 'e + 'p) \<Rightarrow>
   state \<Rightarrow> ref \<Rightarrow> 'p \<Rightarrow> 'e + (state \<times> 'p \<times> unit)" where
  "add_to add_argument s self parser =
     (case add_argument parser (args (heap s ! self)) (kwargs (heap s ! self)) of
        Inl e \<Rightarrow> Inl e
      | Inr parser' \<Rightarrow> Inr (s, parser', ()))"

subsection \<open>_init_options\<close>

definition then_do :: "error + 'a \<Rightarrow> ('a \<Rightarrow> error + 'b) \<Rightarrow> error + 'b" where
  "then_do m f = (case m of Inl e \<Rightarrow> Inl e | Inr x \<Rightarrow> f x)"

text \<open>
  The seven declarations, in the order of the source. \<^verbatim>\<open>paths.swift_dir\<close> comes from
  a module that is not part of this file: it is the parameter \<open>swift_dir\<close>.
\<close>

definition init_options :: "string \<Rightarrow> state \<Rightarrow> error + state" where
  "init_options swift_dir s0 =
     then_do (Option_init [''--verbose'', ''-v''] None
                [(''action'', PyStr ''store_true'')] s0) (\<lambda>(s1, _).
     then_do (Option_init [''--schema''] (Some [''schema''])
                [(''type'', PyFunc ''_abspath''),
                 (''default'', PyPath swift_dir ''codegen/schema.yml'')] s1) (\<lambda>(s2, _).
     then_do (Option_init [''--dbscheme''] (Some [''dbscheme''])
                [(''type'', PyFunc ''_abspath''),
                 (''default'', PyPath swift_dir ''ql/lib/swift.dbscheme'')] s2) (\<lambda>(s3, _).
     then_do (Option_init [''--ql-output''] (Some [''ql''])
                [(''type'', PyFunc ''_abspath''),
                 (''default'', PyPath swift_dir ''ql/lib/codeql/swift/generated'')] s3) (\<lambda>(s4, _).
     then_do (Option_init [''--ql-stub-output''] (Some [''ql''])
                [(''type'', PyFunc ''_abspath''),
                 (''default'', PyPath swift_dir ''ql/lib/codeql/swift/elements'')] s4) (\<lambda>(s5, _).
     then_do (Option_init [''--codeql-binary''] (Some [''ql''])
                [(''default'', PyStr ''codeql'')] s5) (\<lambda>(s6, _).
     then_do (Option_init [''--trap-output''] (Some [''trap''])
                [(''type'', PyFunc ''_abspath''), (''required'', PyBool True)] s6) (\<lambda>(s7, _).
     Inr s7)))))))"

subsection \<open>get\<close>

text \<open>
  \<^verbatim>\<open>(o for tag in ('*',) + tuple(tags) for o in _options[tag])\<close> is a generator
  object. Its outermost iterable is evaluated when the generator is created: \<open>outer\<close>
  is what is left of that tuple. \<open>inner\<close> is the list iterator of the clause
  \<^verbatim>\<open>for o in _options[tag]\<close>: the list it walks (by its key) and its index.
  \<^verbatim>\<open>_options[tag]\<close> is evaluated each time the outer loop reaches a tag, while the
  generator is iterated, not when \<^verbatim>\<open>get\<close> is called.
\<close>

record generator =
  outer :: "string list"
  inner :: "(string \<times> nat) option"

text \<open>The argument is the tag collection in its iteration order.\<close>

definition get :: "string list \<Rightarrow> generator" where
  "get tags = \<lparr>outer = ''*'' # tags, inner = None\<rparr>"

text \<open>
  The list object a list iterator walks, read through its key. The iterator was made
  from the value of \<^verbatim>\<open>_options[tag]\<close>, which binds the key, and no code of the module
  removes a key; the branch for a missing key is there to keep the function total.
\<close>

definition cur_list :: "state \<Rightarrow> string \<Rightarrow> ref list" where
  "cur_list s tag = (case items (options s) tag of Some l \<Rightarrow> l | None \<Rightarrow> [])"

text \<open>
  The outer loop: take the next tag, evaluate \<^verbatim>\<open>_options[tag]\<close>, and yield the first
  element of that list; an empty list is exhausted at once and the loop goes on. When
  no tag is left the generator is finished (result \<open>None\<close>: StopIteration).
\<close>

fun advance :: "state \<Rightarrow> string list \<Rightarrow> error + (state \<times> generator \<times> ref option)" where
  "advance s [] = Inr (s, \<lparr>outer = [], inner = None\<rparr>, None)"
| "advance s (tag # rest) =
     (case getitem (options s) tag of
        Inl e \<Rightarrow> Inl e
      | Inr (d, l) \<Rightarrow>
          (case l of
             [] \<Rightarrow> advance (s\<lparr>options := d\<rparr>) rest
           | x # _ \<Rightarrow> Inr (s\<lparr>options := d\<rparr>, \<lparr>outer = rest, inner = Some (tag, 1)\<rparr>, Some x)))"

text \<open>\<^verbatim>\<open>next(g)\<close>: the next element of the inner list if there is one, else the outer loop.\<close>

definition gen_next :: "state \<Rightarrow> generator \<Rightarrow> error + (state \<times> generator \<times> ref option)" where
  "gen_next s g =
     (case inner g of
        Some (tag, i) \<Rightarrow>
          (if i < length (cur_list s tag)
           then Inr (s, g\<lparr>inner := Some (tag, Suc i)\<rparr>, Some (cur_list s tag ! i))
           else advance s (outer g))
      | None \<Rightarrow> advance s (outer g))"

text \<open>
  What \<^verbatim>\<open>_options[tag]\<close> evaluates to, without the store: the list of a present key,
  the factory's value for a missing one.
\<close>

definition peek :: "defaultdict \<Rightarrow> string \<Rightarrow> ref list" where
  "peek d k =
     (case items d k of
        Some v \<Rightarrow> v
      | None \<Rightarrow> (case default_factory d of Some v \<Rightarrow> v | None \<Rightarrow> []))"

text \<open>The number of elements a generator has still to yield.\<close>

definition pending :: "state \<Rightarrow> generator \<Rightarrow> nat" where
  "pending s g =
     (case inner g of Some (tag, i) \<Rightarrow> length (cur_list s tag) - i | None \<Rightarrow> 0)
     + sum_list (map (\<lambda>t. length (peek (options s) t)) (outer g))"

lemma getitem_peek:
  "getitem d k = Inr (d', l) \<Longrightarrow> peek d' = peek d \<and> peek d k = l \<and> items d' k = Some l"
  by (auto simp: getitem_def peek_def fun_eq_iff split: option.splits if_splits)

lemma advance_pending:
  "advance s ts = Inr (s', g', Some x) \<Longrightarrow>
   pending s' g' < sum_list (map (\<lambda>t. length (peek (options s) t)) ts)"
proof (induction ts arbitrary: s)
  case Nil
  then show ?case by simp
next
  case (Cons t ts)
  from Cons.prems obtain d l where gi: "getitem (options s) t = Inr (d, l)"
    by (auto split: sum.splits)
  note pk = getitem_peek [OF gi]
  show ?case
  proof (cases l)
    case Nil
    with Cons.prems gi have "advance (s\<lparr>options := d\<rparr>) ts = Inr (s', g', Some x)"
      by simp
    from Cons.IH [OF this] pk show ?thesis by simp
  next
    case (Cons y ys)
    with Cons.prems gi have "s' = s\<lparr>options := d\<rparr>" "g' = \<lparr>outer = ts, inner = Some (t, 1)\<rparr>"
      by simp_all
    with pk Cons show ?thesis
      by (simp add: pending_def cur_list_def)
  qed
qed

lemma gen_next_pending:
  "gen_next s g = Inr (s', g', Some x) \<Longrightarrow> pending s' g' < pending s g"
proof (cases "inner g")
  case None
  assume "gen_next s g = Inr (s', g', Some x)"
  with None have "advance s (outer g) = Inr (s', g', Some x)"
    by (simp add: gen_next_def)
  from advance_pending [OF this] None show ?thesis
    by (simp add: pending_def)
next
  case (Some p)
  assume nx: "gen_next s g = Inr (s', g', Some x)"
  obtain tag i where p: "p = (tag, i)" by (cases p)
  show ?thesis
  proof (cases "i < length (cur_list s tag)")
    case True
    with nx Some p show ?thesis
      by (auto simp: gen_next_def pending_def)
  next
    case False
    with nx Some p have "advance s (outer g) = Inr (s', g', Some x)"
      by (simp add: gen_next_def)
    from advance_pending [OF this] Some p show ?thesis
      by (simp add: pending_def)
  qed
qed

text \<open>
  Iterating a generator to its end (\<^verbatim>\<open>list(g)\<close>, or a \<^verbatim>\<open>for\<close> loop over it): call
  \<^verbatim>\<open>next\<close> until StopIteration. The generator is returned in the state it is left in.
\<close>

function drain :: "state \<Rightarrow> generator \<Rightarrow> error + (state \<times> generator \<times> ref list)" where
  "drain s g =
     (case gen_next s g of
        Inl e \<Rightarrow> Inl e
      | Inr (s', g', None) \<Rightarrow> Inr (s', g', [])
      | Inr (s', g', Some x) \<Rightarrow>
          (case drain s' g' of
             Inl e \<Rightarrow> Inl e
           | Inr (s'', g'', xs) \<Rightarrow> Inr (s'', g'', x # xs)))"
  by pat_completeness auto
termination
  by (relation "measure (\<lambda>(s, g). pending s g)") (auto dest: gen_next_pending)

declare drain.simps [simp del]

text \<open>
  \<^verbatim>\<open>list(get(tags))\<close>: the elements one full iteration of a fresh generator yields.
\<close>

definition list_get :: "state \<Rightarrow> string list \<Rightarrow> error + ref list" where
  "list_get s tags = (case drain s (get tags) of Inl e \<Rightarrow> Inl e | Inr (_, _, xs) \<Rightarrow> Inr xs)"

text \<open>
  A generator that has raised StopIteration.
\<close>

definition finished :: generator where
  "finished = \<lparr>outer = [], inner = None\<rparr>"

text \<open>
  A concrete collaborator for \<^verbatim>\<open>add_to\<close>, used where a theorem is applied to a
  parser: it keeps the calls it receives and, like argparse, refuses an option string
  that is already taken.
\<close>

definition record_call ::
  "(string list \<times> (string \<times> pyval) list) list \<Rightarrow> string list \<Rightarrow> (string \<times> pyval) list \<Rightarrow>
   string + (string list \<times> (string \<times> pyval) list) list" where
  "record_call p a k =
     (if \<exists>q \<in> set p. set (fst q) \<inter> set a \<noteq> {} then Inl ''conflicting option string''
      else Inr (p @ [(a, k)]))"

subsection \<open>The states of the module\<close>

text \<open>
  The module changes its state in two ways only: an Option is constructed, or a
  generator returned by \<^verbatim>\<open>get\<close> is advanced. \<^verbatim>\<open>add_to\<close> leaves the state as it
  is. \<open>steps s s'\<close>: the module can go from \<open>s\<close> to \<open>s'\<close>. The reachable states are
  those the module can go to from \<^verbatim>\<open>_options = collections.defaultdict(list)\<close>.
\<close>

inductive steps :: "state \<Rightarrow> state \<Rightarrow> bool" where
  same: "steps s s"
| construct: "steps s s1 \<Longrightarrow> Option_init as tags kws s1 = Inr (s2, r) \<Longrightarrow> steps s s2"
| iterate: "steps s s1 \<Longrightarrow> gen_next s1 g = Inr (s2, g', x) \<Longrightarrow> steps s s2"

definition reachable :: "state \<Rightarrow> bool" where
  "reachable s = steps empty_state s"

text \<open>
  The state of the module once it is imported: \<^verbatim>\<open>_init_options()\<close> has run on the
  empty registry.
\<close>

definition started :: "string \<Rightarrow> state" where
  "started swift_dir = (case init_options swift_dir empty_state of Inr s \<Rightarrow> s | Inl _ \<Rightarrow> empty_state)"

subsection \<open>Auxiliary notions\<close>

text \<open>
  The keys \<^verbatim>\<open>Option.__init__\<close> appends under, read off its two branches.
\<close>

definition declared_under :: "string list option \<Rightarrow> string list" where
  "declared_under tags =
     (case tags of None \<Rightarrow> [''*''] | Some [] \<Rightarrow> [''*''] | Some (t # ts) \<Rightarrow> t # ts)"

text \<open>
  The dict after \<^verbatim>\<open>_options[t]\<close> was evaluated for each tag of a list: every
  missing tag is bound to the factory's value.
\<close>

fun touch :: "defaultdict \<Rightarrow> string list \<Rightarrow> defaultdict" where
  "touch d [] = d"
| "touch d (t # ts) = touch (d\<lparr>items := (items d)(t \<mapsto> peek d t)\<rparr>) ts"

text \<open>
  The elements a generator has still to yield.
\<close>

definition remaining :: "state \<Rightarrow> generator \<Rightarrow> ref list" where
  "remaining s g =
     (case inner g of Some (tag, i) \<Rightarrow> drop i (cur_list s tag) | None \<Rightarrow> [])
     @ concat (map (peek (options s)) (outer g))"

text \<open>
  The invariant of the reachable states: the factory is \<^verbatim>\<open>list\<close>, every reference in
  the registry is the address of an object, and every sequence is in construction
  order (addresses are construction indices).
\<close>

definition wf_state :: "state \<Rightarrow> bool" where
  "wf_state s \<longleftrightarrow>
     default_factory (options s) = Some [] \<and>
     (\<forall>t. \<forall>r \<in> set (peek (options s) t). r < length (heap s)) \<and>
     (\<forall>t. sorted (peek (options s) t))"

section \<open>Iterating a generator\<close>

lemma getitem_factory:
  "default_factory d = Some v \<Longrightarrow>
   getitem d k = Inr (d\<lparr>items := (items d)(k \<mapsto> peek d k)\<rparr>, peek d k)"
  by (auto simp: getitem_def peek_def fun_upd_idem split: option.splits)

lemma peek_touch_step [simp]: "peek (d\<lparr>items := (items d)(k \<mapsto> peek d k)\<rparr>) = peek d"
  by (auto simp: peek_def fun_eq_iff split: option.splits)

lemma peek_touch [simp]: "peek (touch d ts) = peek d"
  by (induction ts arbitrary: d) simp_all

lemma factory_touch [simp]: "default_factory (touch d ts) = default_factory d"
  by (induction ts arbitrary: d) simp_all

lemma items_touch:
  "items (touch d ts) t = (if t \<in> set ts then Some (peek d t) else items d t)"
  by (induction ts arbitrary: d) auto

lemma touch_twice: "touch (touch d ts) ts = touch d ts"
  by (rule defaultdict.equality) (auto simp: items_touch fun_eq_iff)

lemma advance_result:
  assumes "default_factory (options s) = Some v"
  shows "\<exists>s' g' r. advance s ts = Inr (s', g', r) \<and>
           s'\<lparr>options := touch (options s') (outer g')\<rparr> = s\<lparr>options := touch (options s) ts\<rparr> \<and>
           default_factory (options s') = Some v \<and> heap s' = heap s \<and>
           peek (options s') = peek (options s) \<and>
           (case r of None \<Rightarrow> concat (map (peek (options s)) ts) = [] \<and> g' = finished \<and> s' = s\<lparr>options := touch (options s) ts\<rparr>
            | Some x \<Rightarrow> concat (map (peek (options s)) ts) = x # remaining s' g')"
  using assms
proof (induction ts arbitrary: s)
  case Nil
  then show ?case by (simp add: finished_def)
next
  case (Cons t ts)
  let ?d = "(options s)\<lparr>items := (items (options s))(t \<mapsto> peek (options s) t)\<rparr>"
  let ?s = "s\<lparr>options := ?d\<rparr>"
  have gi: "getitem (options s) t = Inr (?d, peek (options s) t)"
    using Cons.prems by (rule getitem_factory)
  show ?case
  proof (cases "peek (options s) t")
    case Nil
    have f: "default_factory (options ?s) = Some v"
      using Cons.prems by simp
    have eq: "advance s (t # ts) = advance ?s ts"
      using gi Nil by simp
    have pk: "peek (options ?s) = peek (options s)" by simp
    have tc: "?s\<lparr>options := touch (options ?s) ts\<rparr> = s\<lparr>options := touch (options s) (t # ts)\<rparr>"
      by simp
    have cc: "concat (map (peek (options s)) (t # ts)) = concat (map (peek (options s)) ts)"
      using Nil by simp
    have hp: "heap ?s = heap s" by simp
    from Cons.IH [OF f] show ?thesis
      unfolding eq pk tc cc hp .
  next
    case (Cons y ys)
    have pk: "peek ?d = peek (options s)" by simp
    have it: "cur_list ?s t = y # ys" using Cons by (simp add: cur_list_def)
    have adv: "advance s (t # ts) = Inr (?s, \<lparr>outer = ts, inner = Some (t, 1)\<rparr>, Some y)"
      using gi Cons by simp
    have rm: "remaining ?s \<lparr>outer = ts, inner = Some (t, 1)\<rparr> = ys @ concat (map (peek (options s)) ts)"
      using it pk by (simp add: remaining_def)
    have f1: "?s\<lparr>options := touch (options ?s) ts\<rparr> = s\<lparr>options := touch (options s) (t # ts)\<rparr>"
      by simp
    have f2: "default_factory (options ?s) = Some v" using Cons.prems by simp
    have f3: "heap ?s = heap s" by simp
    have f4: "peek (options ?s) = peek (options s)" by simp
    have f5: "concat (map (peek (options s)) (t # ts)) = y # remaining ?s \<lparr>outer = ts, inner = Some (t, 1)\<rparr>"
      using rm Cons by simp
    have "advance s (t # ts) = Inr (?s, \<lparr>outer = ts, inner = Some (t, 1)\<rparr>, Some y) \<and>
          ?s\<lparr>options := touch (options ?s) (outer \<lparr>outer = ts, inner = Some (t, 1)\<rparr>)\<rparr> = s\<lparr>options := touch (options s) (t # ts)\<rparr> \<and>
          default_factory (options ?s) = Some v \<and> heap ?s = heap s \<and>
          peek (options ?s) = peek (options s) \<and>
          (case Some y of None \<Rightarrow> concat (map (peek (options s)) (t # ts)) = [] \<and> \<lparr>outer = ts, inner = Some (t, 1)\<rparr> = finished \<and> ?s = s\<lparr>options := touch (options s) (t # ts)\<rparr>
            | Some x \<Rightarrow> concat (map (peek (options s)) (t # ts)) = x # remaining ?s \<lparr>outer = ts, inner = Some (t, 1)\<rparr>)"
      using adv f1 f2 f3 f4 f5 by simp
    then show ?thesis by blast
  qed
qed

lemma gen_next_result:
  assumes "default_factory (options s) = Some v"
  shows "\<exists>s' g' r. gen_next s g = Inr (s', g', r) \<and>
           s'\<lparr>options := touch (options s') (outer g')\<rparr> = s\<lparr>options := touch (options s) (outer g)\<rparr> \<and>
           default_factory (options s') = Some v \<and> heap s' = heap s \<and>
           peek (options s') = peek (options s) \<and>
           (case r of None \<Rightarrow> remaining s g = [] \<and> g' = finished \<and> s' = s\<lparr>options := touch (options s) (outer g)\<rparr>
            | Some x \<Rightarrow> remaining s g = x # remaining s' g')"
proof (cases "inner g")
  case None
  then have a: "gen_next s g = advance s (outer g)"
    and b: "remaining s g = concat (map (peek (options s)) (outer g))"
    by (simp_all add: gen_next_def remaining_def)
  show ?thesis unfolding a b by (rule advance_result [OF assms])
next
  case (Some p)
  obtain tag i where p: "p = (tag, i)" by (cases p)
  show ?thesis
  proof (cases "i < length (cur_list s tag)")
    case True
    with Some p assms show ?thesis
      by (simp add: gen_next_def remaining_def Cons_nth_drop_Suc)
  next
    case False
    with Some p have a: "gen_next s g = advance s (outer g)"
      and b: "remaining s g = concat (map (peek (options s)) (outer g))"
      by (simp_all add: gen_next_def remaining_def)
    show ?thesis unfolding a b by (rule advance_result [OF assms])
  qed
qed

lemma drain_result:
  "default_factory (options s) = Some v \<Longrightarrow>
   drain s g = Inr (s\<lparr>options := touch (options s) (outer g)\<rparr>, finished, remaining s g)"
proof (induction s g rule: drain.induct)
  case (1 s g)
  from gen_next_result [OF "1.prems", of g] obtain s' g' r where
    nx: "gen_next s g = Inr (s', g', r)" and
    tc: "s'\<lparr>options := touch (options s') (outer g')\<rparr> = s\<lparr>options := touch (options s) (outer g)\<rparr>" and
    f: "default_factory (options s') = Some v" and
    r: "case r of None \<Rightarrow> remaining s g = [] \<and> g' = finished \<and> s' = s\<lparr>options := touch (options s) (outer g)\<rparr>
            | Some x \<Rightarrow> remaining s g = x # remaining s' g'"
    by blast
  show ?case
  proof (cases r)
    case None
    with nx r show ?thesis by (subst drain.simps) simp
  next
    case (Some x)
    from "1.IH" [OF nx refl refl Some f] tc have "drain s' g' = Inr (s\<lparr>options := touch (options s) (outer g)\<rparr>, finished, remaining s' g')"
      by simp
    with nx r Some show ?thesis by (subst drain.simps) simp
  qed
qed

lemma drain_get:
  "default_factory (options s) = Some v \<Longrightarrow>
   drain s (get tags) =
     Inr (s\<lparr>options := touch (options s) (''*'' # tags)\<rparr>, finished,
          concat (map (peek (options s)) (''*'' # tags)))"
  by (simp add: drain_result get_def remaining_def)

lemma drain_finished:
  "default_factory (options s) = Some v \<Longrightarrow> drain s finished = Inr (s, finished, [])"
  by (simp add: drain_result finished_def remaining_def)

section \<open>Registration\<close>

lemma append_under_result:
  assumes "default_factory (options s) = Some v"
  shows "\<exists>s'. append_under r t s = Inr s' \<and> heap s' = heap s \<and>
           default_factory (options s') = Some v \<and>
           peek (options s') = (peek (options s))(t := peek (options s) t @ [r])"
  using assms getitem_factory [OF assms, of t]
  by (auto simp: append_under_def peek_def fun_eq_iff split: option.splits)

lemma for_tags_result:
  assumes "default_factory (options s) = Some v"
  shows "\<exists>s'. for_tags r ts s = Inr s' \<and> heap s' = heap s \<and>
           default_factory (options s') = Some v \<and>
           (\<forall>t. peek (options s') t = peek (options s) t @ replicate (count_list ts t) r)"
  using assms
proof (induction ts arbitrary: s)
  case Nil
  then show ?case by simp
next
  case (Cons a ts)
  from append_under_result [OF Cons.prems, of r a] obtain s1 where
    s1: "append_under r a s = Inr s1" "heap s1 = heap s" "default_factory (options s1) = Some v"
      "peek (options s1) = (peek (options s))(a := peek (options s) a @ [r])"
    by blast
  from Cons.IH [OF s1(3)] obtain s' where
    s': "for_tags r ts s1 = Inr s'" "heap s' = heap s1" "default_factory (options s') = Some v"
      "\<forall>t. peek (options s') t = peek (options s1) t @ replicate (count_list ts t) r"
    by blast
  have "for_tags r (a # ts) s = Inr s'" using s1(1) s'(1) by simp
  moreover have "\<forall>t. peek (options s') t = peek (options s) t @ replicate (count_list (a # ts) t) r"
    using s'(4) s1(4) by (simp add: replicate_app_Cons_same)
  ultimately show ?case using s1 s' by simp
qed

lemma Option_init_result:
  assumes "default_factory (options s) = Some v"
  shows "\<exists>s'. Option_init as tags kws s = Inr (s', length (heap s)) \<and>
           heap s' = heap s @ [\<lparr>args = as, kwargs = kws\<rparr>] \<and>
           default_factory (options s') = Some v \<and>
           (\<forall>t. peek (options s') t =
                 peek (options s) t @ replicate (count_list (declared_under tags) t) (length (heap s)))"
proof -
  let ?s1 = "s\<lparr>heap := heap s @ [\<lparr>args = as, kwargs = kws\<rparr>]\<rparr>"
  let ?r = "length (heap s)"
  have f: "default_factory (options ?s1) = Some v" using assms by simp
  have eq: "Option_init as tags kws s =
     (case for_tags ?r (declared_under tags) ?s1 of Inl e \<Rightarrow> Inl e | Inr s2 \<Rightarrow> Inr (s2, ?r))"
    by (simp add: Option_init_def declared_under_def Let_def split: option.splits list.splits sum.splits)
  from for_tags_result [OF f, of ?r "declared_under tags"] show ?thesis
    unfolding eq by auto
qed

lemma init_options_total:
  assumes "default_factory (options s) = Some v"
  shows "\<exists>s'. init_options d s = Inr s'"
proof -
  have step: "\<exists>s' r. Option_init as tags kws s0 = Inr (s', r) \<and> default_factory (options s') = Some v"
    if "default_factory (options s0) = Some v" for as tags kws s0
    using Option_init_result [OF that, of as tags kws] by blast
  from step [OF assms] obtain s1 r1 where
    1: "Option_init [''--verbose'', ''-v''] None [(''action'', PyStr ''store_true'')] s = Inr (s1, r1)"
      "default_factory (options s1) = Some v" by blast
  from step [OF 1(2)] obtain s2 r2 where
    2: "Option_init [''--schema''] (Some [''schema''])
          [(''type'', PyFunc ''_abspath''), (''default'', PyPath d ''codegen/schema.yml'')] s1 = Inr (s2, r2)"
      "default_factory (options s2) = Some v" by blast
  from step [OF 2(2)] obtain s3 r3 where
    3: "Option_init [''--dbscheme''] (Some [''dbscheme''])
          [(''type'', PyFunc ''_abspath''), (''default'', PyPath d ''ql/lib/swift.dbscheme'')] s2 = Inr (s3, r3)"
      "default_factory (options s3) = Some v" by blast
  from step [OF 3(2)] obtain s4 r4 where
    4: "Option_init [''--ql-output''] (Some [''ql''])
          [(''type'', PyFunc ''_abspath''), (''default'', PyPath d ''ql/lib/codeql/swift/generated'')] s3 = Inr (s4, r4)"
      "default_factory (options s4) = Some v" by blast
  from step [OF 4(2)] obtain s5 r5 where
    5: "Option_init [''--ql-stub-output''] (Some [''ql''])
          [(''type'', PyFunc ''_abspath''), (''default'', PyPath d ''ql/lib/codeql/swift/elements'')] s4 = Inr (s5, r5)"
      "default_factory (options s5) = Some v" by blast
  from step [OF 5(2)] obtain s6 r6 where
    6: "Option_init [''--codeql-binary''] (Some [''ql'']) [(''default'', PyStr ''codeql'')] s5 = Inr (s6, r6)"
      "default_factory (options s6) = Some v" by blast
  from step [OF 6(2)] obtain s7 r7 where
    7: "Option_init [''--trap-output''] (Some [''trap''])
          [(''type'', PyFunc ''_abspath''), (''required'', PyBool True)] s6 = Inr (s7, r7)"
    by blast
  show ?thesis
    by (simp add: init_options_def then_do_def 1(1) 2(1) 3(1) 4(1) 5(1) 6(1) 7)
qed

section \<open>Invariants of the reachable states\<close>

lemma wf_empty_state: "wf_state empty_state"
  by (simp add: wf_state_def empty_state_def peek_def)

lemma steps_invariant:
  assumes "steps s s'" and "wf_state s"
  shows "wf_state s' \<and> (\<exists>h. heap s' = heap s @ h) \<and>
         (\<forall>t. \<exists>zs. peek (options s') t = peek (options s) t @ zs \<and>
                     (\<forall>z \<in> set zs. length (heap s) \<le> z))"
  using assms
proof (induction rule: steps.induct)
  case (same s)
  then show ?case by simp
next
  case (construct s s1 as tags kws s2 r)
  from construct.IH [OF construct.prems] obtain h where
    wf1: "wf_state s1" and h: "heap s1 = heap s @ h" and
    pre: "\<forall>t. \<exists>zs. peek (options s1) t = peek (options s) t @ zs \<and>
                     (\<forall>z \<in> set zs. length (heap s) \<le> z)"
    by blast
  from wf1 have f: "default_factory (options s1) = Some []"
    by (simp add: wf_state_def)
  from Option_init_result [OF f, of as tags kws] construct.hyps(2) have
    r: "r = length (heap s1)" and
    h2: "heap s2 = heap s1 @ [\<lparr>args = as, kwargs = kws\<rparr>]" and
    f2: "default_factory (options s2) = Some []" and
    pk: "\<forall>t. peek (options s2) t =
           peek (options s1) t @ replicate (count_list (declared_under tags) t) (length (heap s1))"
    by auto
  have "wf_state s2"
    unfolding wf_state_def
  proof (intro conjI allI ballI)
    show "default_factory (options s2) = Some []" by (rule f2)
  next
    fix t x assume "x \<in> set (peek (options s2) t)"
    with pk wf1 h2 show "x < length (heap s2)"
      by (fastforce simp: wf_state_def less_Suc_eq)
  next
    fix t
    from wf1 have "sorted (peek (options s1) t)" "\<forall>x \<in> set (peek (options s1) t). x < length (heap s1)"
      by (simp_all add: wf_state_def)
    then show "sorted (peek (options s2) t)"
      using pk by (auto simp: sorted_append sorted_replicate less_imp_le)
  qed
  moreover have "\<exists>h'. heap s2 = heap s @ h'" using h h2 by simp
  moreover have "\<exists>zs. peek (options s2) t = peek (options s) t @ zs \<and>
                     (\<forall>z \<in> set zs. length (heap s) \<le> z)" for t
  proof -
    from pre obtain zs where zs: "peek (options s1) t = peek (options s) t @ zs"
      "\<forall>z \<in> set zs. length (heap s) \<le> z" by blast
    let ?ys = "zs @ replicate (count_list (declared_under tags) t) (length (heap s1))"
    have "peek (options s2) t = peek (options s) t @ ?ys" using pk zs(1) by simp
    moreover have "\<forall>z \<in> set ?ys. length (heap s) \<le> z" using zs(2) h by auto
    ultimately show ?thesis by blast
  qed
  ultimately show ?case by blast
next
  case (iterate s s1 g s2 g' x)
  from iterate.IH [OF iterate.prems] have
    wf1: "wf_state s1" and h: "\<exists>h. heap s1 = heap s @ h" and
    pre: "\<forall>t. \<exists>zs. peek (options s1) t = peek (options s) t @ zs \<and>
                     (\<forall>z \<in> set zs. length (heap s) \<le> z)"
    by blast+
  from wf1 have f: "default_factory (options s1) = Some []"
    by (simp add: wf_state_def)
  from gen_next_result [OF f, of g] iterate.hyps(2) have
    "default_factory (options s2) = Some []" "heap s2 = heap s1" "peek (options s2) = peek (options s1)"
    by auto
  with wf1 h pre show ?case by (simp add: wf_state_def)
qed

lemma reachable_wf: "reachable s \<Longrightarrow> wf_state s"
  using steps_invariant [OF _ wf_empty_state] by (auto simp: reachable_def)

lemma reachable_factory: "reachable s \<Longrightarrow> default_factory (options s) = Some []"
  by (drule reachable_wf) (simp add: wf_state_def)

lemma reachable_fresh:
  assumes "reachable s"
  shows "length (heap s) \<notin> set (peek (options s) t)"
  using reachable_wf [OF assms] by (auto simp: wf_state_def)

lemma steps_trans: "steps s1 s2 \<Longrightarrow> steps s0 s1 \<Longrightarrow> steps s0 s2"
  by (induction rule: steps.induct) (auto intro: steps.intros)

lemma steps_reachable: "reachable s \<Longrightarrow> steps s s' \<Longrightarrow> reachable s'"
  unfolding reachable_def by (rule steps_trans)

lemma steps_count:
  assumes "steps s s'" and "wf_state s" and "r < length (heap s)"
  shows "count_list (peek (options s') t) r = count_list (peek (options s) t) r"
proof -
  from steps_invariant [OF assms(1,2)] obtain zs where
    "peek (options s') t = peek (options s) t @ zs" "\<forall>z \<in> set zs. length (heap s) \<le> z"
    by blast
  moreover from this(2) assms(3) have "r \<notin> set zs" by auto
  ultimately show ?thesis by (simp add: count_list_0_iff)
qed

lemma list_get_eq:
  "reachable s \<Longrightarrow> list_get s tags = Inr (concat (map (peek (options s)) (''*'' # tags)))"
  by (simp add: list_get_def drain_get [OF reachable_factory])

section \<open>Counting occurrences\<close>

lemma count_list_concat:
  "count_list (concat xss) x = sum_list (map (\<lambda>xs. count_list xs x) xss)"
  by (induction xss) simp_all

lemma sum_list_indicator:
  "sum_list (map (\<lambda>t. if t = c then 1 else 0) ts) = count_list ts c"
  by (induction ts) simp_all

lemma count_list_distinct:
  "distinct ts \<Longrightarrow> c \<in> set ts \<Longrightarrow> count_list ts c = 1"
  by (induction ts) (auto simp: count_list_0_iff)

lemma count_list_replicate_same: "count_list (replicate n x) x = n"
  by (induction n) simp_all

lemma Option_init_counts:
  assumes "reachable s0" and "Option_init as tags kws s0 = Inr (s1, r)" and "steps s1 s"
  shows "reachable s \<and> count_list (peek (options s) t) r = count_list (declared_under tags) t"
proof -
  from Option_init_result [OF reachable_factory [OF assms(1)], of as tags kws] assms(2) have
    r: "r = length (heap s0)" and
    h: "heap s1 = heap s0 @ [\<lparr>args = as, kwargs = kws\<rparr>]" and
    pk: "\<forall>t. peek (options s1) t =
           peek (options s0) t @ replicate (count_list (declared_under tags) t) (length (heap s0))"
    by auto
  have r1: "reachable s1"
    using assms(1,2) unfolding reachable_def by (rule steps.construct)
  have "count_list (peek (options s1) t) r = count_list (declared_under tags) t"
    using pk r reachable_fresh [OF assms(1), of t]
    by (simp add: count_list_0_iff count_list_replicate_same)
  moreover have "count_list (peek (options s) t) r = count_list (peek (options s1) t) r"
    using assms(3) reachable_wf [OF r1] by (rule steps_count) (simp add: r h)
  ultimately show ?thesis using steps_reachable [OF r1 assms(3)] by simp
qed

section \<open>The state after initialization\<close>

lemma started_eq:
  "started d =
     \<lparr>heap =
        [\<lparr>args = [''--verbose'', ''-v''], kwargs = [(''action'', PyStr ''store_true'')]\<rparr>,
         \<lparr>args = [''--schema''],
          kwargs = [(''type'', PyFunc ''_abspath''), (''default'', PyPath d ''codegen/schema.yml'')]\<rparr>,
         \<lparr>args = [''--dbscheme''],
          kwargs = [(''type'', PyFunc ''_abspath''), (''default'', PyPath d ''ql/lib/swift.dbscheme'')]\<rparr>,
         \<lparr>args = [''--ql-output''],
          kwargs = [(''type'', PyFunc ''_abspath''),
                    (''default'', PyPath d ''ql/lib/codeql/swift/generated'')]\<rparr>,
         \<lparr>args = [''--ql-stub-output''],
          kwargs = [(''type'', PyFunc ''_abspath''),
                    (''default'', PyPath d ''ql/lib/codeql/swift/elements'')]\<rparr>,
         \<lparr>args = [''--codeql-binary''], kwargs = [(''default'', PyStr ''codeql'')]\<rparr>,
         \<lparr>args = [''--trap-output''],
          kwargs = [(''type'', PyFunc ''_abspath''), (''required'', PyBool True)]\<rparr>],
      options =
        \<lparr>default_factory = Some [],
         items = [''*'' \<mapsto> [0], ''schema'' \<mapsto> [1], ''dbscheme'' \<mapsto> [2],
                  ''ql'' \<mapsto> [3, 4, 5], ''trap'' \<mapsto> [6]]\<rparr>\<rparr>"
  by (simp add: started_def init_options_def then_do_def Option_init_def append_under_def
      getitem_def empty_state_def Let_def eval_nat_numeral)

lemma init_options_steps: "init_options d s = Inr s' \<Longrightarrow> steps s s'"
  unfolding init_options_def then_do_def
  by (clarsimp split: sum.splits prod.splits) (meson steps.same steps.construct)

lemma init_options_started: "init_options d empty_state = Inr (started d)"
  by (simp add: started_def init_options_def then_do_def Option_init_def append_under_def
      getitem_def empty_state_def Let_def)

lemma reachable_started: "reachable (started d)"
  unfolding reachable_def by (rule init_options_steps [OF init_options_started])

lemma peek_started:
  "peek (options (started d)) ''*'' = [0]"
  "peek (options (started d)) ''schema'' = [1]"
  "peek (options (started d)) ''dbscheme'' = [2]"
  "peek (options (started d)) ''ql'' = [3, 4, 5]"
  "peek (options (started d)) ''trap'' = [6]"
  "peek (options (started d)) ''x'' = []"
  by (simp_all add: started_eq peek_def)

lemma Option_init_started:
  "\<exists>s1. Option_init as tags kws (started d) = Inr (s1, 7)"
proof -
  have "length (heap (started d)) = 7" by (simp add: started_eq)
  with Option_init_result [OF reachable_factory [OF reachable_started [of d]], of as tags kws]
  show ?thesis by auto
qed

section \<open>The claims\<close>

subsection \<open>C1: what get yields\<close>

text \<open>
  C1. In every reachable state, one full iteration of \<^verbatim>\<open>get(tags)\<close> yields the wildcard
  tag's sequence followed by, for each requested tag in the order supplied, that tag's
  sequence from the registry (empty for a tag that is not a key); for no tags it
  yields exactly the wildcard sequence.
\<close>

theorem get_concatenates_wildcard_then_tags:
  assumes "reachable s"
  shows "list_get s tags = Inr (peek (options s) ''*'' @ concat (map (peek (options s)) tags)) \<and>
         list_get s [] = Inr (peek (options s) ''*'')"
  using list_get_eq [OF assms] by simp

text \<open>
  After initialization, \<^verbatim>\<open>get(["ql", "schema"])\<close> yields --verbose, the three ql
  options and --schema; \<^verbatim>\<open>get([])\<close> yields --verbose alone.
\<close>

theorem get_concatenates_witness:
  "reachable (started ''/swift'') \<and>
   list_get (started ''/swift'') [''ql'', ''schema''] = Inr [0, 3, 4, 5, 1] \<and>
   list_get (started ''/swift'') [] = Inr [0]"
  using get_concatenates_wildcard_then_tags [OF reachable_started, of "''/swift''" "[''ql'', ''schema'']"]
    reachable_started [of "''/swift''"]
  by (simp add: peek_started)

subsection \<open>C2: where an Option is registered\<close>

text \<open>
  C2, as amended. In every reachable state the construction of an Option succeeds and
  returns a reference that was nowhere in the registry before. An Option constructed
  with a non-empty tag list is afterwards under exactly its declared tags: under the
  wildcard tag if and only if \<^verbatim>\<open>"*"\<close> is itself one of them. An Option constructed
  with no tags, or with an empty tag list, is afterwards under the wildcard tag only.
\<close>

theorem Option_init_registers_under_declared_tags:
  assumes "reachable s"
  shows "\<exists>s'. Option_init as tags kws s = Inr (s', length (heap s)) \<and>
           (\<forall>t. length (heap s) \<notin> set (peek (options s) t)) \<and>
           (tags = None \<or> tags = Some [] \<longrightarrow>
              (\<forall>t. peek (options s') t =
                     peek (options s) t @ (if t = ''*'' then [length (heap s)] else []))) \<and>
           (\<forall>ts. tags = Some ts \<and> ts \<noteq> [] \<longrightarrow>
              (\<forall>t. peek (options s') t =
                     peek (options s) t @ replicate (count_list ts t) (length (heap s)) \<and>
                   (length (heap s) \<in> set (peek (options s') t) \<longleftrightarrow> t \<in> set ts)))"
proof -
  from Option_init_result [OF reachable_factory [OF assms], of as tags kws] obtain s' where
    s': "Option_init as tags kws s = Inr (s', length (heap s))" and
    pk: "\<forall>t. peek (options s') t =
           peek (options s) t @ replicate (count_list (declared_under tags) t) (length (heap s))"
    by blast
  have mem: "length (heap s) \<in> set (peek (options s') t) \<longleftrightarrow> t \<in> set (declared_under tags)" for t
    using pk reachable_fresh [OF assms, of t] by (auto simp: count_list_0_iff)
  have a: "tags = None \<or> tags = Some [] \<longrightarrow>
              (\<forall>t. peek (options s') t =
                     peek (options s) t @ (if t = ''*'' then [length (heap s)] else []))"
    using pk by (auto simp: declared_under_def)
  have b: "\<forall>ts. tags = Some ts \<and> ts \<noteq> [] \<longrightarrow>
              (\<forall>t. peek (options s') t =
                     peek (options s) t @ replicate (count_list ts t) (length (heap s)) \<and>
                   (length (heap s) \<in> set (peek (options s') t) \<longleftrightarrow> t \<in> set ts))"
  proof (intro allI impI)
    fix ts t
    assume "tags = Some ts \<and> ts \<noteq> []"
    then have "declared_under tags = ts"
      by (auto simp: declared_under_def split: list.splits)
    with pk mem [of t] show "peek (options s') t =
                     peek (options s) t @ replicate (count_list ts t) (length (heap s)) \<and>
                   (length (heap s) \<in> set (peek (options s') t) \<longleftrightarrow> t \<in> set ts)"
      by simp
  qed
  from s' a b reachable_fresh [OF assms] show ?thesis by blast
qed

text \<open>
  A new Option declared with the tags ql and trap on top of the initialized registry
  is under ql and trap, and neither under the wildcard tag nor under schema.
\<close>

theorem Option_init_registers_witness:
  "reachable (started ''/swift'') \<and>
   (\<exists>s'. Option_init [''--y''] (Some [''ql'', ''trap'']) [] (started ''/swift'') = Inr (s', 7) \<and>
      7 \<in> set (peek (options s') ''ql'') \<and> 7 \<in> set (peek (options s') ''trap'') \<and>
      7 \<notin> set (peek (options s') ''*'') \<and> 7 \<notin> set (peek (options s') ''schema''))"
proof -
  note r = reachable_started [of "''/swift''"]
  have l: "length (heap (started ''/swift'')) = 7" by (simp add: started_eq)
  from Option_init_registers_under_declared_tags [OF r, of "[''--y'']" "Some [''ql'', ''trap'']" "[]"]
  show ?thesis unfolding l using r by auto
qed

text \<open>
  The claim as stated fails: \<^verbatim>\<open>Option("--x", tags=["*"])\<close> has a non-empty tag list
  and is appended under the wildcard tag.
\<close>

theorem declared_wildcard_counterexample:
  "Option_init [''--x''] (Some [''*'']) [] empty_state =
     Inr (\<lparr>heap = [\<lparr>args = [''--x''], kwargs = []\<rparr>],
           options = \<lparr>default_factory = Some [], items = [''*'' \<mapsto> [0]]\<rparr>\<rparr>, 0) \<and>
   cur_list \<lparr>heap = [\<lparr>args = [''--x''], kwargs = []\<rparr>],
             options = \<lparr>default_factory = Some [], items = [''*'' \<mapsto> [0]]\<rparr>\<rparr> ''*'' = [0]"
  by (simp add: Option_init_def append_under_def getitem_def empty_state_def Let_def cur_list_def)

subsection \<open>C3: registration order\<close>

text \<open>
  C3. Whatever the module does from a reachable state on, every tag's sequence only
  grows at its end, by references to Options constructed later than all objects of
  the earlier state; every sequence stays in construction order; no object leaves the
  heap; and the next Option constructed gets the next construction index.
\<close>

theorem registration_appends_in_construction_order:
  assumes "reachable s" and "steps s s'"
  shows "(\<forall>t. \<exists>zs. peek (options s') t = peek (options s) t @ zs \<and>
                     (\<forall>z \<in> set zs. length (heap s) \<le> z)) \<and>
         (\<forall>t. sorted (peek (options s') t)) \<and>
         (\<exists>h. heap s' = heap s @ h) \<and>
         (\<exists>s''. Option_init as tags kws s' = Inr (s'', length (heap s')) \<and>
                 heap s'' = heap s' @ [\<lparr>args = as, kwargs = kws\<rparr>])"
proof -
  note inv = steps_invariant [OF assms(2) reachable_wf [OF assms(1)]]
  from inv have f: "default_factory (options s') = Some []" and
    so: "\<forall>t. sorted (peek (options s') t)"
    by (simp_all add: wf_state_def)
  from Option_init_result [OF f, of as tags kws] have
    "\<exists>s''. Option_init as tags kws s' = Inr (s'', length (heap s')) \<and>
            heap s'' = heap s' @ [\<lparr>args = as, kwargs = kws\<rparr>]"
    by blast
  with inv so show ?thesis by blast
qed

text \<open>
  Initialization from the empty registry: the ql sequence is --ql-output,
  --ql-stub-output, --codeql-binary, in the order of their declarations.
\<close>

theorem registration_order_witness:
  "reachable empty_state \<and> steps empty_state (started ''/swift'') \<and>
   peek (options (started ''/swift'')) ''ql'' = peek (options empty_state) ''ql'' @ [3, 4, 5] \<and>
   sorted (peek (options (started ''/swift'')) ''ql'') \<and>
   map (\<lambda>r. args (heap (started ''/swift'') ! r)) (peek (options (started ''/swift'')) ''ql'') =
     [[''--ql-output''], [''--ql-stub-output''], [''--codeql-binary'']]"
proof -
  have r: "reachable empty_state" unfolding reachable_def by (rule steps.same)
  have st: "steps empty_state (started ''/swift'')"
    using reachable_started by (simp add: reachable_def)
  from registration_appends_in_construction_order [OF r st] have
    "sorted (peek (options (started ''/swift'')) ''ql'')" by blast
  moreover have "peek (options empty_state) ''ql'' = []"
    by (simp add: empty_state_def peek_def)
  moreover have "map (\<lambda>r. args (heap (started ''/swift'') ! r)) [3, 4, 5] =
     [[''--ql-output''], [''--ql-stub-output''], [''--codeql-binary'']]"
    by (simp add: started_eq eval_nat_numeral)
  ultimately show ?thesis using r st by (simp add: peek_started)
qed

subsection \<open>C4: no deduplication\<close>

text \<open>
  C4, as amended. In every reachable state the result of \<^verbatim>\<open>get\<close> holds an Option once
  for every occurrence of it in the sequence of every tag visited, the wildcard tag
  first and then each requested tag as often as it is requested. An Option declared
  with two different tags a and b is, from then on, in \<^verbatim>\<open>get([a])\<close> and in
  \<^verbatim>\<open>get([b])\<close>, and \<^verbatim>\<open>get([a, b])\<close> holds it twice and once more for a declared
  \<^verbatim>\<open>"*"\<close>: exactly twice when neither tag is \<^verbatim>\<open>"*"\<close>, three times when one of them is.
\<close>

theorem get_does_not_deduplicate:
  assumes "reachable s"
  shows "(\<exists>xs. list_get s tags = Inr xs \<and>
            (\<forall>x. count_list xs x =
                  sum_list (map (\<lambda>t. count_list (peek (options s) t) x) (''*'' # tags)))) \<and>
         (reachable s0 \<and> Option_init as (Some [a, b]) kws s0 = Inr (s1, r) \<and> a \<noteq> b \<and>
          steps s1 s \<longrightarrow>
            (\<exists>xa xb xab. list_get s [a] = Inr xa \<and> r \<in> set xa \<and>
               list_get s [b] = Inr xb \<and> r \<in> set xb \<and>
               list_get s [a, b] = Inr xab \<and>
               count_list xab r = 2 + count_list [a, b] ''*'' \<and>
               (a \<noteq> ''*'' \<and> b \<noteq> ''*'' \<longrightarrow> count_list xab r = 2) \<and>
               (a = ''*'' \<or> b = ''*'' \<longrightarrow> count_list xab r = 3)))"
proof -
  have 1: "\<exists>xs. list_get s tags = Inr xs \<and>
            (\<forall>x. count_list xs x =
                  sum_list (map (\<lambda>t. count_list (peek (options s) t) x) (''*'' # tags)))"
    unfolding list_get_eq [OF assms] by (simp add: count_list_concat comp_def)
  have 2: "\<exists>xa xb xab. list_get s [a] = Inr xa \<and> r \<in> set xa \<and>
               list_get s [b] = Inr xb \<and> r \<in> set xb \<and>
               list_get s [a, b] = Inr xab \<and>
               count_list xab r = 2 + count_list [a, b] ''*'' \<and>
               (a \<noteq> ''*'' \<and> b \<noteq> ''*'' \<longrightarrow> count_list xab r = 2) \<and>
               (a = ''*'' \<or> b = ''*'' \<longrightarrow> count_list xab r = 3)"
    if r0: "reachable s0" and oi: "Option_init as (Some [a, b]) kws s0 = Inr (s1, r)"
      and ne: "a \<noteq> b" and st: "steps s1 s"
  proof -
    note c = Option_init_counts [OF r0 oi st]
    have cnt: "count_list (peek (options s) t) r = count_list [a, b] t" for t
      using c [of t] by (simp add: declared_under_def)
    have ca: "count_list (peek (options s) a) r = 1"
      and cb: "count_list (peek (options s) b) r = 1"
      using cnt [of a] cnt [of b] ne by simp_all
    have ma: "r \<in> set (peek (options s) a)" and mb: "r \<in> set (peek (options s) b)"
      using ca cb count_list_0_iff [of "peek (options s) a" r]
        count_list_0_iff [of "peek (options s) b" r]
      by auto
    let ?xab = "peek (options s) ''*'' @ peek (options s) a @ peek (options s) b"
    have l: "list_get s [a] = Inr (peek (options s) ''*'' @ peek (options s) a)"
      "list_get s [b] = Inr (peek (options s) ''*'' @ peek (options s) b)"
      "list_get s [a, b] = Inr ?xab"
      by (simp_all add: list_get_eq [OF assms])
    have e: "count_list ?xab r = 2 + count_list [a, b] ''*''"
      using ca cb cnt [of "''*''"] by simp
    have e2: "a \<noteq> ''*'' \<and> b \<noteq> ''*'' \<longrightarrow> count_list ?xab r = 2"
      unfolding e by simp
    have e3: "a = ''*'' \<or> b = ''*'' \<longrightarrow> count_list ?xab r = 3"
      unfolding e using ne by auto
    have m: "r \<in> set (peek (options s) ''*'' @ peek (options s) a)"
      "r \<in> set (peek (options s) ''*'' @ peek (options s) b)"
      using ma mb by simp_all
    from l m e e2 e3 show ?thesis by blast
  qed
  from 1 2 show ?thesis by blast
qed

text \<open>
  After initialization a repeated tag repeats its Options: --ql-output is twice in
  \<^verbatim>\<open>get(["ql", "ql"])\<close>. An Option declared on top of the initialized registry with
  the tags ql and trap is twice in \<^verbatim>\<open>get(["ql", "trap"])\<close>.
\<close>

theorem get_does_not_deduplicate_witness:
  "reachable (started ''/swift'') \<and> ''ql'' \<noteq> ''trap'' \<and>
   (\<exists>xs. list_get (started ''/swift'') [''ql'', ''ql''] = Inr xs \<and> count_list xs 3 = 2) \<and>
   (\<exists>s1. Option_init [''--y''] (Some [''ql'', ''trap'']) [] (started ''/swift'') = Inr (s1, 7) \<and>
      reachable s1 \<and> steps s1 s1 \<and>
      (\<exists>xa. list_get s1 [''ql''] = Inr xa \<and> 7 \<in> set xa) \<and>
      (\<exists>xb. list_get s1 [''trap''] = Inr xb \<and> 7 \<in> set xb) \<and>
      (\<exists>xab. list_get s1 [''ql'', ''trap''] = Inr xab \<and> count_list xab 7 = 2))"
proof -
  note r = reachable_started [of "''/swift''"]
  from Option_init_started obtain s1 where
    s1: "Option_init [''--y''] (Some [''ql'', ''trap'']) [] (started ''/swift'') = Inr (s1, 7)"
    by blast
  have r1: "reachable s1"
    using r s1 unfolding reachable_def by (rule steps.construct)
  have ne: "''ql'' \<noteq> ''trap''" by simp
  from get_does_not_deduplicate [OF r, of "[''ql'', ''ql'']"] obtain xs where
    xs: "list_get (started ''/swift'') [''ql'', ''ql''] = Inr xs" and
    c: "\<forall>x. count_list xs x =
          sum_list (map (\<lambda>t. count_list (peek (options (started ''/swift'')) t) x)
            [''*'', ''ql'', ''ql''])"
    by blast
  from c have "count_list xs 3 = 2" by (simp add: peek_started)
  with xs have a: "\<exists>xs. list_get (started ''/swift'') [''ql'', ''ql''] = Inr xs \<and> count_list xs 3 = 2"
    by blast
  from get_does_not_deduplicate [OF r1, of "[]" "started ''/swift''" "[''--y'']" "''ql''" "''trap''" "[]" s1 7]
    r s1 ne
  have b: "(\<exists>xa. list_get s1 [''ql''] = Inr xa \<and> 7 \<in> set xa) \<and>
      (\<exists>xb. list_get s1 [''trap''] = Inr xb \<and> 7 \<in> set xb) \<and>
      (\<exists>xab. list_get s1 [''ql'', ''trap''] = Inr xab \<and> count_list xab 7 = 2)"
    by (auto intro: steps.same)
  from r ne a s1 r1 b show ?thesis by (auto intro: steps.same)
qed

text \<open>
  The claim as stated fails: an Option declared on top of the initialized registry
  with the two tags \<^verbatim>\<open>"*"\<close> and ql is three times, not twice, in \<^verbatim>\<open>get(["*", "ql"])\<close>.
\<close>

theorem declared_wildcard_thrice_counterexample:
  "Option_init [''--y''] (Some [''*'', ''ql'']) [] (started ''/swift'') =
     Inr ((started ''/swift'')
            \<lparr>heap := heap (started ''/swift'') @ [\<lparr>args = [''--y''], kwargs = []\<rparr>],
             options := (options (started ''/swift''))
               \<lparr>items := (items (options (started ''/swift'')))
                            (''*'' \<mapsto> [0, 7], ''ql'' \<mapsto> [3, 4, 5, 7])\<rparr>\<rparr>, 7) \<and>
   list_get ((started ''/swift'')
            \<lparr>heap := heap (started ''/swift'') @ [\<lparr>args = [''--y''], kwargs = []\<rparr>],
             options := (options (started ''/swift''))
               \<lparr>items := (items (options (started ''/swift'')))
                            (''*'' \<mapsto> [0, 7], ''ql'' \<mapsto> [3, 4, 5, 7])\<rparr>\<rparr>) [''*'', ''ql''] =
     Inr [0, 7, 0, 7, 3, 4, 5, 7] \<and>
   count_list [0, 7, 0, 7, 3, 4, 5, 7] (7 :: nat) = 3"
proof -
  let ?s1 = "(started ''/swift'')
            \<lparr>heap := heap (started ''/swift'') @ [\<lparr>args = [''--y''], kwargs = []\<rparr>],
             options := (options (started ''/swift''))
               \<lparr>items := (items (options (started ''/swift'')))
                            (''*'' \<mapsto> [0, 7], ''ql'' \<mapsto> [3, 4, 5, 7])\<rparr>\<rparr>"
  have oi: "Option_init [''--y''] (Some [''*'', ''ql'']) [] (started ''/swift'') = Inr (?s1, 7)"
    by (simp add: started_eq Option_init_def append_under_def getitem_def Let_def
        eval_nat_numeral)
  have "reachable ?s1"
    using reachable_started [of "''/swift''"] oi unfolding reachable_def by (rule steps.construct)
  then have "list_get ?s1 [''*'', ''ql''] =
      Inr (concat (map (peek (options ?s1)) [''*'', ''*'', ''ql'']))"
    by (rule list_get_eq)
  moreover have "peek (options ?s1) ''*'' = [0, 7]" "peek (options ?s1) ''ql'' = [3, 4, 5, 7]"
    by (simp_all add: peek_def)
  ultimately have "list_get ?s1 [''*'', ''ql''] = Inr [0, 7, 0, 7, 3, 4, 5, 7]"
    by simp
  with oi show ?thesis by simp
qed

subsection \<open>C5: iterating the returned value again\<close>

text \<open>
  C5, as amended. The value \<^verbatim>\<open>get(tags)\<close> returns is a one-shot stream: its first
  full iteration yields the concatenation of C1 and leaves it finished, and every
  later iteration of that same value yields nothing. A fresh call \<^verbatim>\<open>get(tags)\<close>
  yields the same elements in the same order again.
\<close>

theorem get_is_one_shot:
  assumes "reachable s"
  shows "\<exists>s1. drain s (get tags) =
                 Inr (s1, finished, concat (map (peek (options s)) (''*'' # tags))) \<and>
              drain s1 finished = Inr (s1, finished, []) \<and>
              drain s1 (get tags) =
                 Inr (s1, finished, concat (map (peek (options s)) (''*'' # tags)))"
proof -
  let ?s1 = "s\<lparr>options := touch (options s) (''*'' # tags)\<rparr>"
  note f = reachable_factory [OF assms]
  have f1: "default_factory (options ?s1) = Some []" using f by simp
  have same: "?s1\<lparr>options := touch (options ?s1) (''*'' # tags)\<rparr> = ?s1"
    using touch_twice [of "options s" "''*'' # tags"] by simp
  have pk: "peek (options ?s1) = peek (options s)" by simp
  have "drain ?s1 (get tags) = Inr (?s1, finished, concat (map (peek (options s)) (''*'' # tags)))"
    using drain_get [OF f1, of tags] unfolding same pk .
  with drain_get [OF f, of tags] drain_finished [OF f1] show ?thesis by blast
qed

text \<open>
  After initialization, \<^verbatim>\<open>get(["trap"])\<close> yields --verbose and --trap-output once, and
  a second call yields them again.
\<close>

theorem get_is_one_shot_witness:
  "reachable (started ''/swift'') \<and>
   (\<exists>s1. drain (started ''/swift'') (get [''trap'']) = Inr (s1, finished, [0, 6]) \<and>
      drain s1 finished = Inr (s1, finished, []) \<and>
      drain s1 (get [''trap'']) = Inr (s1, finished, [0, 6]))"
  using get_is_one_shot [OF reachable_started, of "''/swift''" "[''trap'']"]
    reachable_started [of "''/swift''"]
  by (simp add: peek_started)

text \<open>
  The claim as stated fails: after initialization the first iteration of
  \<^verbatim>\<open>g = get([])\<close> yields --verbose, and the second iteration of the same \<open>g\<close> yields
  nothing.
\<close>

theorem second_iteration_empty_counterexample:
  "drain (started ''/swift'') (get []) = Inr (started ''/swift'', finished, [0]) \<and>
   drain (started ''/swift'') finished = Inr (started ''/swift'', finished, [])"
proof -
  have f: "default_factory (options (started ''/swift'')) = Some []"
    by (rule reachable_factory [OF reachable_started])
  have "items (options (started ''/swift'')) ''*'' = Some [0]"
    by (simp add: started_eq)
  then have "(started ''/swift'')\<lparr>options := touch (options (started ''/swift'')) [''*'']\<rparr> =
        started ''/swift''"
    by (simp add: peek_def fun_upd_idem)
  with drain_get [OF f, of "[]"] drain_finished [OF f] show ?thesis
    by (simp add: peek_started)
qed

subsection \<open>C6: what retrieval changes\<close>

text \<open>
  C6, as amended. Calling \<^verbatim>\<open>get\<close> changes nothing (it is a function of its argument
  alone). Iterating the value it returns, fully or by one \<^verbatim>\<open>next\<close>, succeeds and
  changes no Option and no tag's sequence, nor the factory; its only change to the
  registry is that \<^verbatim>\<open>"*"\<close> and every requested tag become keys, a tag that was not a
  key being bound to an empty sequence.
\<close>

theorem get_preserves_every_sequence:
  assumes "reachable s"
  shows "(\<exists>s' g' xs. drain s (get tags) = Inr (s', g', xs) \<and> heap s' = heap s \<and>
            default_factory (options s') = default_factory (options s) \<and>
            peek (options s') = peek (options s) \<and>
            (\<forall>t. items (options s') t =
                  (if t \<in> set (''*'' # tags) then Some (peek (options s) t)
                   else items (options s) t))) \<and>
         (\<exists>s' g' x. gen_next s g = Inr (s', g', x) \<and> heap s' = heap s \<and>
            default_factory (options s') = default_factory (options s) \<and>
            peek (options s') = peek (options s))"
proof -
  note f = reachable_factory [OF assms]
  let ?s' = "s\<lparr>options := touch (options s) (''*'' # tags)\<rparr>"
  have "drain s (get tags) = Inr (?s', finished, concat (map (peek (options s)) (''*'' # tags)))"
    by (rule drain_get [OF f])
  moreover have "heap ?s' = heap s" by simp
  moreover have "default_factory (options ?s') = default_factory (options s)" by simp
  moreover have "peek (options ?s') = peek (options s)" by simp
  moreover have "\<forall>t. items (options ?s') t =
                  (if t \<in> set (''*'' # tags) then Some (peek (options s) t)
                   else items (options s) t)"
    by (simp add: items_touch del: touch.simps)
  ultimately have 1: "\<exists>s' g' xs. drain s (get tags) = Inr (s', g', xs) \<and> heap s' = heap s \<and>
            default_factory (options s') = default_factory (options s) \<and>
            peek (options s') = peek (options s) \<and>
            (\<forall>t. items (options s') t =
                  (if t \<in> set (''*'' # tags) then Some (peek (options s) t)
                   else items (options s) t))"
    by blast
  from gen_next_result [OF f, of g] f have 2: "\<exists>s' g' x. gen_next s g = Inr (s', g', x) \<and> heap s' = heap s \<and>
            default_factory (options s') = default_factory (options s) \<and>
            peek (options s') = peek (options s)"
    by auto
  from 1 2 show ?thesis by blast
qed

text \<open>
  After initialization, iterating \<^verbatim>\<open>get(["x"])\<close> keeps the heap and every sequence,
  and binds x to the empty sequence.
\<close>

theorem get_preserves_every_sequence_witness:
  "reachable (started ''/swift'') \<and>
   (\<exists>s' g' xs. drain (started ''/swift'') (get [''x'']) = Inr (s', g', xs) \<and>
      heap s' = heap (started ''/swift'') \<and>
      peek (options s') = peek (options (started ''/swift'')) \<and>
      items (options s') ''x'' = Some [] \<and> items (options s') ''trap'' = Some [6])"
proof -
  note r = reachable_started [of "''/swift''"]
  have "items (options (started ''/swift'')) ''trap'' = Some [6]" by (simp add: started_eq)
  with get_preserves_every_sequence [OF r, of "[''x'']" "get []"] r show ?thesis
    by (auto simp: peek_started)
qed

text \<open>
  The claim as stated fails: after initialization x is not a key of the registry, and
  after the iteration of \<^verbatim>\<open>get(["x"])\<close> it is one.
\<close>

theorem get_adds_key_counterexample:
  "drain (started ''/swift'') (get [''x'']) =
     Inr ((started ''/swift'')
            \<lparr>options := (options (started ''/swift''))
               \<lparr>items := (items (options (started ''/swift'')))(''x'' \<mapsto> [])\<rparr>\<rparr>,
          finished, [0]) \<and>
   items (options (started ''/swift'')) ''x'' = None"
proof -
  have f: "default_factory (options (started ''/swift'')) = Some []"
    by (rule reachable_factory [OF reachable_started])
  have "items (options (started ''/swift'')) ''*'' = Some [0]"
    by (simp add: started_eq)
  then have "(options (started ''/swift''))
      \<lparr>items := (items (options (started ''/swift'')))(''*'' \<mapsto> peek (options (started ''/swift'')) ''*'')\<rparr>
      = options (started ''/swift'')"
    by (simp add: peek_def fun_upd_idem)
  then have "touch (options (started ''/swift'')) [''*'', ''x''] =
      (options (started ''/swift''))\<lparr>items := (items (options (started ''/swift'')))(''x'' \<mapsto> [])\<rparr>"
    by (simp add: peek_started)
  moreover have "items (options (started ''/swift'')) ''x'' = None"
    by (simp add: started_eq)
  ultimately show ?thesis using drain_get [OF f, of "[''x'']"]
    by (simp add: peek_started)
qed

subsection \<open>C7: no errors\<close>

text \<open>
  C7. In every reachable state no operation raises: the construction of an Option
  returns, \<^verbatim>\<open>_init_options\<close> returns, every \<^verbatim>\<open>next\<close> on a generator returns, every full
  iteration returns, and a requested tag that is not a key of the registry contributes
  the empty sequence to the result.
\<close>

theorem registration_and_retrieval_never_raise:
  assumes "reachable s"
  shows "(\<exists>s' r. Option_init as tags kws s = Inr (s', r)) \<and>
         (\<exists>s'. init_options d s = Inr s') \<and>
         (\<exists>s' g' x. gen_next s g = Inr (s', g', x)) \<and>
         (\<exists>s' g' xs. drain s g = Inr (s', g', xs)) \<and>
         (\<exists>xs. list_get s req = Inr xs) \<and>
         (items (options s) t = None \<longrightarrow>
            peek (options s) t = [] \<and> list_get s (req @ [t] @ req') = list_get s (req @ req'))"
proof -
  note f = reachable_factory [OF assms]
  have 1: "\<exists>s' r. Option_init as tags kws s = Inr (s', r)"
    using Option_init_result [OF f, of as tags kws] by blast
  have 2: "\<exists>s'. init_options d s = Inr s'" by (rule init_options_total [OF f])
  have 3: "\<exists>s' g' x. gen_next s g = Inr (s', g', x)"
    using gen_next_result [OF f, of g] by blast
  have 4: "\<exists>s' g' xs. drain s g = Inr (s', g', xs)"
    using drain_result [OF f, of g] by blast
  have 5: "\<exists>xs. list_get s req = Inr xs"
    by (simp add: list_get_eq [OF assms])
  have 6: "items (options s) t = None \<longrightarrow>
            peek (options s) t = [] \<and> list_get s (req @ [t] @ req') = list_get s (req @ req')"
    using f by (simp add: list_get_eq [OF assms] peek_def)
  from 1 2 3 4 5 6 show ?thesis by blast
qed

text \<open>
  After initialization an Option with a registered and an unregistered tag can be
  constructed, and \<^verbatim>\<open>get(["x"])\<close> for the unregistered tag x yields --verbose alone.
\<close>

theorem never_raise_witness:
  "reachable (started ''/swift'') \<and>
   (\<exists>s' r. Option_init [''--x''] (Some [''ql'', ''new'']) [] (started ''/swift'') = Inr (s', r)) \<and>
   items (options (started ''/swift'')) ''x'' = None \<and>
   list_get (started ''/swift'') [''x''] = Inr [0]"
proof -
  note r = reachable_started [of "''/swift''"]
  note th = registration_and_retrieval_never_raise [OF r, of "[''--x'']" "Some [''ql'', ''new'']" "[]"
      "''/swift''" "get []" "[]" "''x''" "[]"]
  have n: "items (options (started ''/swift'')) ''x'' = None" by (simp add: started_eq)
  from th n have "list_get (started ''/swift'') [''x''] = list_get (started ''/swift'') []"
    by simp
  also have "\<dots> = Inr [0]" by (simp add: list_get_eq [OF r] peek_started)
  finally show ?thesis using th r n by blast
qed

subsection \<open>C8: monotonicity\<close>

text \<open>
  C8. In every reachable state, when every tag of T1 is a tag of T2, every element of
  \<^verbatim>\<open>get(T1)\<close> is an element of \<^verbatim>\<open>get(T2)\<close>, and so is every element of the sequence of
  each tag of T1. An Option constructed with no tags (or an empty tag list) is, from
  then on, in \<^verbatim>\<open>get(T)\<close> for every T, and in \<^verbatim>\<open>get([])\<close>.
\<close>

theorem get_is_monotone:
  assumes "reachable s"
  shows "(set T1 \<subseteq> set T2 \<longrightarrow>
            (\<exists>xs1 xs2. list_get s T1 = Inr xs1 \<and> list_get s T2 = Inr xs2 \<and>
               set xs1 \<subseteq> set xs2 \<and> (\<forall>t \<in> set T1. set (peek (options s) t) \<subseteq> set xs2))) \<and>
         ((tags = None \<or> tags = Some []) \<and> reachable s0 \<and>
          Option_init as tags kws s0 = Inr (s1, r) \<and> steps s1 s \<longrightarrow>
            (\<exists>xs. list_get s T = Inr xs \<and> r \<in> set xs) \<and>
            (\<exists>xs. list_get s [] = Inr xs \<and> r \<in> set xs))"
proof -
  have 1: "set T1 \<subseteq> set T2 \<longrightarrow>
            (\<exists>xs1 xs2. list_get s T1 = Inr xs1 \<and> list_get s T2 = Inr xs2 \<and>
               set xs1 \<subseteq> set xs2 \<and> (\<forall>t \<in> set T1. set (peek (options s) t) \<subseteq> set xs2))"
    by (auto simp: list_get_eq [OF assms])
  have 2: "(\<exists>xs. list_get s T = Inr xs \<and> r \<in> set xs) \<and>
           (\<exists>xs. list_get s [] = Inr xs \<and> r \<in> set xs)"
    if t: "tags = None \<or> tags = Some []" and r0: "reachable s0"
      and oi: "Option_init as tags kws s0 = Inr (s1, r)" and st: "steps s1 s"
  proof -
    from Option_init_counts [OF r0 oi st, of "''*''"] t
    have "count_list (peek (options s) ''*'') r = 1"
      by (auto simp: declared_under_def)
    then have "r \<in> set (peek (options s) ''*'')"
      using count_list_0_iff [of "peek (options s) ''*''" r] by auto
    then show ?thesis by (simp add: list_get_eq [OF assms])
  qed
  from 1 2 show ?thesis by blast
qed

text \<open>
  After initialization the elements of \<^verbatim>\<open>get(["ql"])\<close> are among those of
  \<^verbatim>\<open>get(["schema", "ql"])\<close>.
\<close>

theorem get_is_monotone_witness:
  "reachable (started ''/swift'') \<and> set [''ql''] \<subseteq> set [''schema'', ''ql''] \<and>
   list_get (started ''/swift'') [''ql''] = Inr [0, 3, 4, 5] \<and>
   list_get (started ''/swift'') [''schema'', ''ql''] = Inr [0, 1, 3, 4, 5] \<and>
   set [0, 3, 4, 5 :: nat] \<subseteq> set [0, 1, 3, 4, 5]"
proof -
  note r = reachable_started [of "''/swift''"]
  have a: "list_get (started ''/swift'') [''ql''] = Inr [0, 3, 4, 5]"
    and b: "list_get (started ''/swift'') [''schema'', ''ql''] = Inr [0, 1, 3, 4, 5]"
    by (simp_all add: list_get_eq [OF r] peek_started)
  from get_is_monotone [OF r, of "[''ql'']" "[''schema'', ''ql'']"]
  have "set [0, 3, 4, 5 :: nat] \<subseteq> set [0, 1, 3, 4, 5]"
    unfolding a b by simp
  with r a b show ?thesis by simp
qed

subsection \<open>C9: add_to\<close>

text \<open>
  C9. For an existing Option, \<^verbatim>\<open>add_to\<close> hands the stored \<^verbatim>\<open>args\<close> and \<^verbatim>\<open>kwargs\<close> to
  the collaborator's \<^verbatim>\<open>add_argument\<close> as they are: when the collaborator accepts them
  the result is the collaborator's new state, the unchanged module state and no
  value; when the collaborator raises, that error is the result. A call leaves the
  module state, and so the Option, as it was, so a later call against another
  collaborator does what it would have done before.
\<close>

theorem add_to_forwards_unchanged:
  assumes "self < length (heap s)"
  shows "(\<forall>p'. add_argument parser (args (heap s ! self)) (kwargs (heap s ! self)) = Inr p' \<longrightarrow>
            add_to add_argument s self parser = Inr (s, p', ())) \<and>
         (\<forall>e. add_argument parser (args (heap s ! self)) (kwargs (heap s ! self)) = Inl e \<longrightarrow>
            add_to add_argument s self parser = Inl e) \<and>
         (\<forall>s1 p1 u. add_to add_argument s self parser = Inr (s1, p1, u) \<longrightarrow>
            s1 = s \<and> add_to add_argument s1 self parser2 = add_to add_argument s self parser2)"
  by (auto simp: add_to_def split: sum.splits)

text \<open>
  Applying --trap-output to an empty recording parser registers its spelling with
  \<^verbatim>\<open>type=_abspath\<close> and \<^verbatim>\<open>required=True\<close>, and nothing else.
\<close>

theorem add_to_witness:
  "6 < length (heap (started ''/swift'')) \<and>
   add_to record_call (started ''/swift'') 6 [] =
     Inr (started ''/swift'',
          [([''--trap-output''], [(''type'', PyFunc ''_abspath''), (''required'', PyBool True)])], ())"
proof -
  have l: "6 < length (heap (started ''/swift''))" by (simp add: started_eq)
  have "record_call [] (args (heap (started ''/swift'') ! 6)) (kwargs (heap (started ''/swift'') ! 6)) =
      Inr [([''--trap-output''], [(''type'', PyFunc ''_abspath''), (''required'', PyBool True)])]"
    by (simp add: record_call_def started_eq eval_nat_numeral)
  with add_to_forwards_unchanged [OF l, of record_call "[]"] l show ?thesis by blast
qed

subsection \<open>C10: requesting the wildcard tag\<close>

text \<open>
  C10. An Option constructed with no tags (or an empty tag list) is, from then on, in
  the result of \<^verbatim>\<open>get(T)\<close> once for the wildcard sequence that is always prepended and
  once more for each \<^verbatim>\<open>"*"\<close> in T: twice when T is a set that holds \<^verbatim>\<open>"*"\<close>.
\<close>

theorem explicit_wildcard_repeats_untagged:
  assumes "reachable s0" and "tags = None \<or> tags = Some []"
    and "Option_init as tags kws s0 = Inr (s1, r)" and "steps s1 s"
  shows "\<exists>xs. list_get s T = Inr xs \<and> count_list xs r = 1 + count_list T ''*'' \<and>
           (distinct T \<and> ''*'' \<in> set T \<longrightarrow> count_list xs r = 2)"
proof -
  note c = Option_init_counts [OF assms(1,3,4)]
  from c have rs: "reachable s" by simp
  have cnt: "count_list (peek (options s) t) r = (if t = ''*'' then 1 else 0)" for t
    using c [of t] assms(2) by (auto simp: declared_under_def)
  have "count_list (concat (map (peek (options s)) (''*'' # T))) r = 1 + count_list T ''*''"
    by (simp add: count_list_concat comp_def cnt sum_list_indicator)
  moreover have "distinct T \<and> ''*'' \<in> set T \<longrightarrow> 1 + count_list T ''*'' = 2"
    by (simp add: count_list_distinct)
  ultimately show ?thesis by (simp add: list_get_eq [OF rs])
qed

text \<open>
  An untagged Option constructed on top of the initialized registry is twice in
  \<^verbatim>\<open>get({"ql", "*"})\<close>.
\<close>

theorem explicit_wildcard_witness:
  "reachable (started ''/swift'') \<and>
   (\<exists>s1. Option_init [''--debug''] None [] (started ''/swift'') = Inr (s1, 7) \<and> steps s1 s1 \<and>
      distinct [''ql'', ''*''] \<and> ''*'' \<in> set [''ql'', ''*''] \<and>
      (\<exists>xs. list_get s1 [''ql'', ''*''] = Inr xs \<and> count_list xs 7 = 2))"
proof -
  note r = reachable_started [of "''/swift''"]
  from Option_init_started obtain s1 where
    s1: "Option_init [''--debug''] None [] (started ''/swift'') = Inr (s1, 7)" by blast
  from explicit_wildcard_repeats_untagged [OF r _ s1 steps.same, of "[''ql'', ''*'']"]
  have "\<exists>xs. list_get s1 [''ql'', ''*''] = Inr xs \<and> count_list xs 7 = 2" by auto
  with r s1 show ?thesis by (auto intro: steps.same)
qed

end
